theory Spec2Isabelle
  imports Main "HOL-Library.Word"
begin

unbundle bit_operations_syntax

section \<open>The wire-format decoder (include/llmr/util/pbf.hpp)\<close>

text \<open>
  \<^verbatim>\<open>struct pbf\<close> is a cursor over a byte range: two pointers \<^verbatim>\<open>data\<close> and \<^verbatim>\<open>end\<close> and the
  last field header (\<^verbatim>\<open>value\<close>, \<^verbatim>\<open>tag\<close>). The model keeps the four fields (\<open>end\<close> and
  \<open>value\<close> are Isabelle keywords, hence the primes) and adds the two things the C++
  object only refers to:
  \<^item> \<open>mem\<close>: the bytes of the address space the two pointers point into. Addresses are
    natural numbers, so \<^verbatim>\<open>data += bytes\<close> is plain addition: a pointer moved past the
    buffer is formally undefined in C++, and the model takes it as the address
    arithmetic of a 64-bit target, where adding a 32-bit count cannot wrap.
  \<^item> \<open>reads\<close>: a ghost log of every address the decoder dereferences, most recent first.
    It is never consulted by the decoder; it is there so that "no byte at or past
    \<^verbatim>\<open>end\<close> is read" is a statement about the model.

  A C++ exception leaves the object as it was when the exception was thrown, so every
  operation returns the exception or the result together with the decoder's state.
\<close>

type_synonym u8 = "8 word"
type_synonym u32 = "32 word"
type_synonym u64 = "64 word"

datatype pbf_exception =
    unterminated_varint_exception
  | varint_too_long_exception
  | unknown_field_type_exception
  | end_of_buffer_exception

record pbf =
  mem :: "nat \<Rightarrow> u8"
  data :: nat
  end' :: nat
  value' :: u32
  tag :: u32
  reads :: "nat list"

text \<open>
  The body of \<^verbatim>\<open>pbf::varint<T>\<close>'s \<^verbatim>\<open>for\<close> loop, entered with the loop variables
  \<^verbatim>\<open>byte\<close>, \<^verbatim>\<open>result\<close> and \<^verbatim>\<open>bitpos\<close>; it returns them as the loop leaves them.
  \<open>T\<close> is an unsigned integer of \<open>LENGTH('a)\<close> bits (the template's default is
  \<^verbatim>\<open>uint32_t\<close>). \<^verbatim>\<open>((T)byte & 0x7F) << bitpos\<close> is \<open>push_bit\<close> on a \<open>'a word\<close>: the bits
  shifted beyond the width are lost. For \<open>bitpos \<ge> LENGTH('a)\<close> C++ leaves the shift
  undefined; the model's \<open>push_bit\<close> yields 0 there, and which exception is thrown
  never depends on it.
\<close>

function varint_loop ::
  "pbf \<Rightarrow> u8 \<Rightarrow> 'a::len word \<Rightarrow> nat \<Rightarrow> (pbf_exception + u8 \<times> 'a word \<times> nat) \<times> pbf" where
  "varint_loop p byte result bitpos =
     (if bitpos < 70 \<and> byte AND 0x80 \<noteq> 0 then
        if data p \<ge> end' p then (Inl unterminated_varint_exception, p)
        else
          let byte' = mem p (data p);
              result' = result OR push_bit bitpos (ucast byte' AND 0x7F);
              p' = p\<lparr>data := data p + 1, reads := data p # reads p\<rparr>
          in varint_loop p' byte' result' (bitpos + 7)
      else (Inr (byte, result, bitpos), p))"
  by pat_completeness auto
termination
  by (relation "measure (\<lambda>(p, byte, result, bitpos). 70 - bitpos)") auto

definition pbf_varint :: "pbf \<Rightarrow> (pbf_exception + 'a::len word) \<times> pbf" where
  "pbf_varint p =
     (case varint_loop p 0x80 0 0 of
        (Inl e, p') \<Rightarrow> (Inl e, p')
      | (Inr (byte, result, bitpos), p') \<Rightarrow>
          if bitpos = 70 \<and> byte AND 0x80 \<noteq> 0 then (Inl varint_too_long_exception, p')
          else (Inr result, p'))"

text \<open>
  \<^verbatim>\<open>pbf::svarint<T>\<close>: \<^verbatim>\<open>(n >> 1) ^ -(T)(n & 1)\<close> on the unsigned \<open>T\<close>: a logical shift, and
  the negation wraps. (With a signed \<open>T\<close> the shift of a negative \<open>n\<close> would be an
  arithmetic one; the instances covered here are the unsigned ones, the template's
  default among them.)
\<close>

definition pbf_svarint :: "pbf \<Rightarrow> (pbf_exception + 'a::len word) \<times> pbf" where
  "pbf_svarint p =
     (case pbf_varint p of
        (Inl e, p') \<Rightarrow> (Inl e, p')
      | (Inr n, p') \<Rightarrow> (Inr (drop_bit 1 n XOR - (n AND 1)), p'))"

definition pbf_next :: "pbf \<Rightarrow> (pbf_exception + bool) \<times> pbf" where
  "pbf_next p =
     (if data p < end' p then
        case pbf_varint p of
          (Inl e, p') \<Rightarrow> (Inl e, p')
        | (Inr v, p') \<Rightarrow> (Inr True, p'\<lparr>value' := v, tag := drop_bit 3 v\<rparr>)
      else (Inr False, p))"

definition pbf_skipBytes :: "u32 \<Rightarrow> pbf \<Rightarrow> (pbf_exception + unit) \<times> pbf" where
  "pbf_skipBytes bytes p =
     (let p' = p\<lparr>data := data p + unat bytes\<rparr>
      in if data p' > end' p' then (Inl end_of_buffer_exception, p') else (Inr (), p'))"

text \<open>
  \<open>fetch p a n\<close> is the read of the \<open>n\<close> bytes at address \<open>a\<close> that \<^verbatim>\<open>std::string(string, bytes)\<close>,
  \<^verbatim>\<open>memcpy\<close> and \<^verbatim>\<open>*(bool *)(data - 1)\<close> perform: the bytes, and the state with the read logged.
\<close>

definition fetch :: "pbf \<Rightarrow> nat \<Rightarrow> nat \<Rightarrow> u8 list \<times> pbf" where
  "fetch p a n = (map (mem p) [a ..< a + n], p\<lparr>reads := rev [a ..< a + n] @ reads p\<rparr>)"

text \<open>A \<^verbatim>\<open>std::string\<close> is a sequence of \<^verbatim>\<open>char\<close>: one \<open>char\<close> per byte.\<close>

definition pbf_string :: "pbf \<Rightarrow> (pbf_exception + string) \<times> pbf" where
  "pbf_string p =
     (case pbf_varint p of
        (Inl e, p1) \<Rightarrow> (Inl e, p1)
      | (Inr (bytes :: u32), p1) \<Rightarrow>
          let string = data p1 in
          (case pbf_skipBytes bytes p1 of
             (Inl e, p2) \<Rightarrow> (Inl e, p2)
           | (Inr _, p2) \<Rightarrow>
               let (bs, p3) = fetch p2 string (unat bytes)
               in (Inr (map (\<lambda>b. char_of (unat b)) bs), p3)))"

text \<open>
  \<^verbatim>\<open>float32\<close> and \<^verbatim>\<open>float64\<close> copy 4 and 8 bytes into a \<^verbatim>\<open>float\<close> and a \<^verbatim>\<open>double\<close>; the model
  returns the object representation (the bytes copied, in address order) and does not
  interpret it as an IEEE number. \<^verbatim>\<open>boolean\<close> reads one byte as a \<^verbatim>\<open>bool\<close>: true unless
  the byte is 0.
\<close>

definition pbf_float32 :: "pbf \<Rightarrow> (pbf_exception + u8 list) \<times> pbf" where
  "pbf_float32 p =
     (case pbf_skipBytes 4 p of
        (Inl e, p1) \<Rightarrow> (Inl e, p1)
      | (Inr _, p1) \<Rightarrow> (let (bs, p2) = fetch p1 (data p1 - 4) 4 in (Inr bs, p2)))"

definition pbf_float64 :: "pbf \<Rightarrow> (pbf_exception + u8 list) \<times> pbf" where
  "pbf_float64 p =
     (case pbf_skipBytes 8 p of
        (Inl e, p1) \<Rightarrow> (Inl e, p1)
      | (Inr _, p1) \<Rightarrow> (let (bs, p2) = fetch p1 (data p1 - 8) 8 in (Inr bs, p2)))"

definition pbf_boolean :: "pbf \<Rightarrow> (pbf_exception + bool) \<times> pbf" where
  "pbf_boolean p =
     (case pbf_skipBytes 1 p of
        (Inl e, p1) \<Rightarrow> (Inl e, p1)
      | (Inr _, p1) \<Rightarrow> (let (bs, p2) = fetch p1 (data p1 - 1) 1 in (Inr (bs \<noteq> [0]), p2)))"

definition pbf_skipValue :: "u32 \<Rightarrow> pbf \<Rightarrow> (pbf_exception + unit) \<times> pbf" where
  "pbf_skipValue val p =
     (let w = val AND 0x7 in
      if w = 0 then
        (case (pbf_varint p :: (pbf_exception + u32) \<times> pbf) of
           (Inl e, p') \<Rightarrow> (Inl e, p')
         | (Inr _, p') \<Rightarrow> (Inr (), p'))
      else if w = 1 then pbf_skipBytes 8 p
      else if w = 2 then
        (case pbf_varint p of
           (Inl e, p') \<Rightarrow> (Inl e, p')
         | (Inr bytes, p') \<Rightarrow> pbf_skipBytes bytes p')
      else if w = 5 then pbf_skipBytes 4 p
      else (Inl unknown_field_type_exception, p))"

definition pbf_skip :: "pbf \<Rightarrow> (pbf_exception + unit) \<times> pbf" where
  "pbf_skip p = pbf_skipValue (value' p) p"

text \<open>
  The constructor \<^verbatim>\<open>pbf(data, length)\<close> over a buffer whose bytes are \<open>bs\<close>, placed at
  address 0: \<^verbatim>\<open>end = data + length\<close>. The constructor leaves \<^verbatim>\<open>value\<close> and \<^verbatim>\<open>tag\<close>
  uninitialised, so they are arguments here. The bytes beyond the buffer are whatever
  the address space holds: \<open>past\<close>.
\<close>

definition pbf_init :: "u8 list \<Rightarrow> u8 \<Rightarrow> u32 \<Rightarrow> u32 \<Rightarrow> pbf" where
  "pbf_init bs past v t =
     \<lparr>mem = (\<lambda>i. if i < length bs then bs ! i else past), data = 0, end' = length bs,
      value' = v, tag = t, reads = []\<rparr>"

subsection \<open>Vocabulary of the statements\<close>

text \<open>
  \<open>cont b\<close> is the loop's test \<^verbatim>\<open>byte & 0x80\<close>: the continuation bit of a varint byte.
  \<open>remaining p\<close> is the number of bytes between the cursor and \<^verbatim>\<open>end\<close> (0 when the cursor
  is past \<^verbatim>\<open>end\<close>). \<open>reads_in_bounds p\<close> says that every address logged so far lies
  before \<^verbatim>\<open>end\<close>. \<open>holds p bs\<close> says that the bytes \<open>bs\<close> lie at the cursor, inside the
  buffer. \<open>varint_value bs bitpos\<close> is what the loop accumulates from the bytes \<open>bs\<close>,
  starting at bit \<open>bitpos\<close>. \<open>pbf_next_times n\<close> calls \<^verbatim>\<open>next()\<close> \<open>n\<close> times in a row and
  collects what each call returns.
\<close>

definition cont :: "u8 \<Rightarrow> bool" where
  "cont b = (b AND 0x80 \<noteq> 0)"

definition remaining :: "pbf \<Rightarrow> nat" where
  "remaining p = end' p - data p"


definition holds :: "pbf \<Rightarrow> u8 list \<Rightarrow> bool" where
  "holds p bs = (data p + length bs \<le> end' p \<and> map (mem p) [data p ..< data p + length bs] = bs)"



fun varint_value :: "u8 list \<Rightarrow> nat \<Rightarrow> 'a::len word" where
  "varint_value [] bitpos = 0"
| "varint_value (b # bs) bitpos = push_bit bitpos (ucast b AND 0x7F) OR varint_value bs (bitpos + 7)"

fun pbf_next_times :: "nat \<Rightarrow> pbf \<Rightarrow> (pbf_exception + bool) list \<times> pbf" where
  "pbf_next_times 0 p = ([], p)"
| "pbf_next_times (Suc n) p =
     (let (r, p') = pbf_next p; (rs, p'') = pbf_next_times n p' in (r # rs, p''))"

subsection \<open>The encodings the decoder is checked against\<close>

text \<open>
  Modelled from the spec: the repository has a decoder only, so the two encodings of the
  round-trip property are written from the spec's words. \<open>encode_varint\<close> is the
  "base-128 continuation-bit varint encoding" of the glossary ("a variable-length
  encoding of an unsigned integer using continuation bits, 7 payload bits per byte"),
  least significant group first as \<^verbatim>\<open>varint\<close> reads it ("little-endian-group").
\<close>

function encode_varint :: "nat \<Rightarrow> u8 list" where
  "v < 128 \<Longrightarrow> encode_varint v = [of_nat v]"
| "\<not> v < 128 \<Longrightarrow>
     encode_varint v = (of_nat (v mod 128) OR 0x80) # encode_varint (v div 128)"
  by (atomize_elim, auto)
termination
  by (relation "measure id") auto

text \<open>
  Modelled from the spec: zig-zag encoding, "a bijection from signed to unsigned integers
  that keeps small-magnitude values small": 0, -1, 1, -2, 2, ... become 0, 1, 2, 3, 4, ...
\<close>

definition zigzag :: "int \<Rightarrow> nat" where
  "zigzag v = (if 0 \<le> v then nat (2 * v) else nat (- 2 * v - 1))"

section \<open>The tile lifecycle (include/llmr/map/tile_data.hpp)\<close>

text \<open>
  The header declares the lifecycle states, the state field, the byte buffer and the
  request handle of \<^verbatim>\<open>TileData\<close>; \<open>data\<close> is already the decoder's field, so the buffer is
  \<open>tile_data\<close> here, and \<open>req\<close> says whether a request handle is held.
\<close>

datatype State = invalid | initial | loading | loaded | parsed | obsolete

record TileData =
  state :: State
  tile_data :: string
  req :: bool

text \<open>
  Modelled from the spec: the bodies of \<^verbatim>\<open>TileData::request\<close>, \<^verbatim>\<open>parse\<close>, \<^verbatim>\<open>cancel\<close> and of the
  completion callback are not among the sources (only their declarations are). Section
  4.1 of the spec: \<^verbatim>\<open>request()\<close> is "valid only from initial. Transitions to loading";
  a second call is "a caller error (no-op or diagnostic)".
\<close>

definition tile_request :: "TileData \<Rightarrow> TileData" where
  "tile_request t = (if state t = initial then t\<lparr>state := loading, req := True\<rparr> else t)"

text \<open>
  Modelled from the spec: the completion callback. "If the tile is already obsolete,
  discard the payload silently (no decode, no state change). Otherwise, on success, store
  bytes and transition loading -> loaded. On failure, transition to obsolete." A success
  that finds the tile in no state to take it is "a silent no-op" (section 5).
\<close>

definition tile_completion :: "bool \<Rightarrow> string \<Rightarrow> TileData \<Rightarrow> TileData" where
  "tile_completion ok body t =
     (if state t = obsolete then t
      else if ok then (if state t = loading then t\<lparr>state := loaded, tile_data := body\<rparr> else t)
      else t\<lparr>state := obsolete\<rparr>)"

text \<open>
  Modelled from the spec: \<^verbatim>\<open>parse()\<close> is "valid only from loaded. ... On success,
  transitions loaded -> parsed and returns a success indicator; on a decode failure,
  signals a decode error and transitions to obsolete". Whether the bytes decode is the
  argument \<open>decodes\<close>.
\<close>

definition tile_parse :: "bool \<Rightarrow> TileData \<Rightarrow> bool \<times> TileData" where
  "tile_parse decodes t =
     (if state t = loaded then
        (if decodes then (True, t\<lparr>state := parsed\<rparr>) else (False, t\<lparr>state := obsolete\<rparr>))
      else (False, t))"

text \<open>
  Modelled from the spec: \<^verbatim>\<open>cancel()\<close> "marks the in-flight network/cache request (if any)
  as cancelled, transitions to obsolete immediately ... and guarantees no further state
  transition occurs for this tile. Idempotent."
\<close>

definition tile_cancel :: "TileData \<Rightarrow> TileData" where
  "tile_cancel t = (if state t = obsolete then t else t\<lparr>state := obsolete, req := False\<rparr>)"

text \<open>
  The operations a tile receives, and a tile driven through a sequence of them. \<open>rank\<close>
  is the position of a state in the declaration of \<^verbatim>\<open>enum class State\<close>.
\<close>

datatype tile_event = Request | Completion bool string | Parse bool | Cancel

fun tile_step :: "TileData \<Rightarrow> tile_event \<Rightarrow> TileData" where
  "tile_step t Request = tile_request t"
| "tile_step t (Completion ok body) = tile_completion ok body t"
| "tile_step t (Parse decodes) = snd (tile_parse decodes t)"
| "tile_step t Cancel = tile_cancel t"

definition tile_run :: "TileData \<Rightarrow> tile_event list \<Rightarrow> TileData" where
  "tile_run t evs = foldl tile_step t evs"

fun rank :: "State \<Rightarrow> nat" where
  "rank invalid = 0"
| "rank initial = 1"
| "rank loading = 2"
| "rank loaded = 3"
| "rank parsed = 4"
| "rank obsolete = 5"

section \<open>The caching file source (include/mbgl/storage/caching_http_file_source.hpp)\<close>

text \<open>
  The header declares \<^verbatim>\<open>request(ResourceType, url)\<close>, the \<^verbatim>\<open>base\<close> URL and the table
  \<^verbatim>\<open>pending\<close> from a key to the request in flight. Callers are numbered. The model adds two
  logs: \<open>operations\<close>, the network/cache operations started, by key, and \<open>delivered\<close>, the
  outcomes handed to callers. Requests that overlap are calls that arrive before the
  operation completes: the spec has the table "mutated only from the file source's own
  execution context", so the calls are taken one after the other.
\<close>

datatype ResourceType = Tile | Style | Glyphs | Sprite | SpriteImage

datatype outcome = Success string | Failure

type_synonym resource_key = "ResourceType \<times> string"

record CachingHTTPFileSource =
  base :: string
  pending :: "resource_key \<rightharpoonup> nat list"
  operations :: "resource_key list"
  delivered :: "(nat \<times> outcome) list"

text \<open>
  Modelled from the spec: the body of \<^verbatim>\<open>CachingHTTPFileSource::request\<close> is not among the
  sources. Section 4.2: "If another request for the same normalized key is already in
  flight, the new caller is attached to the same underlying operation"; section 3: the
  key is "resource type + URL", and the entry "is created on first request for a key".
  \<open>resolve\<close> normalizes a URL against the base.
\<close>

definition fs_request ::
  "(string \<Rightarrow> string \<Rightarrow> string) \<Rightarrow> ResourceType \<Rightarrow> string \<Rightarrow> nat \<Rightarrow>
   CachingHTTPFileSource \<Rightarrow> CachingHTTPFileSource" where
  "fs_request resolve ty url waiter s =
     (let key = (ty, resolve (base s) url) in
      case pending s key of
        Some ws \<Rightarrow> s\<lparr>pending := (pending s)(key \<mapsto> ws @ [waiter])\<rparr>
      | None \<Rightarrow> s\<lparr>pending := (pending s)(key \<mapsto> [waiter]), operations := operations s @ [key]\<rparr>)"

text \<open>
  Modelled from the spec: the completion of the operation of a key. Section 4.2: the
  response is delivered "to all attached waiters", and on failure "failure to all attached
  waiters"; the entry is "destroyed when the last waiter detaches (completion or
  cancellation of all waiters)".
\<close>

definition fs_complete ::
  "resource_key \<Rightarrow> outcome \<Rightarrow> CachingHTTPFileSource \<Rightarrow> CachingHTTPFileSource" where
  "fs_complete key r s =
     (case pending s key of
        None \<Rightarrow> s
      | Some ws \<Rightarrow> s\<lparr>pending := (pending s)(key := None),
                      delivered := delivered s @ map (\<lambda>w. (w, r)) ws\<rparr>)"

text \<open>
  A sequence of calls of \<^verbatim>\<open>request\<close>, each with its caller, and the callers among them
  that asked for a given key.
\<close>

fun fs_requests ::
  "(string \<Rightarrow> string \<Rightarrow> string) \<Rightarrow> (ResourceType \<times> string \<times> nat) list \<Rightarrow>
   CachingHTTPFileSource \<Rightarrow> CachingHTTPFileSource" where
  "fs_requests resolve [] s = s"
| "fs_requests resolve ((ty, url, waiter) # rs) s =
     fs_requests resolve rs (fs_request resolve ty url waiter s)"

definition waiters_for ::
  "(string \<Rightarrow> string \<Rightarrow> string) \<Rightarrow> string \<Rightarrow> resource_key \<Rightarrow>
   (ResourceType \<times> string \<times> nat) list \<Rightarrow> nat list" where
  "waiters_for resolve b key rs =
     map (\<lambda>(ty, url, w). w) (filter (\<lambda>(ty, url, w). (ty, resolve b url) = key) rs)"

section \<open>The style parser (src/mbgl/style/style_parser.cpp)\<close>

text \<open>
  A \<^verbatim>\<open>rapidjson::Value\<close>. \<open>'n\<close> is the type of the numbers, as \<^verbatim>\<open>GetDouble()\<close> returns them; the
  narrowing of that \<^verbatim>\<open>double\<close> to the \<^verbatim>\<open>float\<close> fields of a bucket is not modelled.
  \<^verbatim>\<open>HasMember\<close> and \<^verbatim>\<open>operator[]\<close> find the first member of that name; \<^verbatim>\<open>parseBucket\<close> is
  only called on values that \<^verbatim>\<open>createLayer\<close> found to be objects.
\<close>

datatype 'n json =
    JNull
  | JBool bool
  | JNumber 'n
  | JString string
  | JArray "'n json list"
  | JObject "(string \<times> 'n json) list"

fun IsObject :: "'n json \<Rightarrow> bool" where
  "IsObject (JObject ms) = True"
| "IsObject _ = False"

fun FindMember :: "'n json \<Rightarrow> string \<Rightarrow> 'n json option" where
  "FindMember (JObject ms) name = map_of ms name"
| "FindMember _ name = None"

definition HasMember :: "'n json \<Rightarrow> string \<Rightarrow> bool" where
  "HasMember value name = (FindMember value name \<noteq> None)"

definition member :: "'n json \<Rightarrow> string \<Rightarrow> 'n json" where
  "member value name = (case FindMember value name of Some v \<Rightarrow> v | None \<Rightarrow> JNull)"

text \<open>
  The parser's tables \<^verbatim>\<open>constants\<close> and \<^verbatim>\<open>sources\<close>, a \<^verbatim>\<open>StyleBucket\<close> and a \<^verbatim>\<open>StyleLayer\<close>.
  The classes are declared in headers that are not among the sources, so the types of
  a source (\<open>'src\<close>), a filter expression (\<open>'flt\<close>), a layer type (\<open>'ty\<close>) and of the
  part of a bucket that \<^verbatim>\<open>parseLayout\<close> writes (\<open>'lay\<close>: \<^verbatim>\<open>visibility\<close> and \<^verbatim>\<open>render\<close>) are
  parameters. \<open>filter\<close>, \<open>id\<close> and \<open>type\<close> are taken in HOL, hence the primes.
\<close>

record ('n, 'src) StyleParser =
  constants :: "string \<rightharpoonup> 'n json"
  sources :: "string \<rightharpoonup> 'src"

record ('n, 'src, 'flt, 'lay) StyleBucket =
  name :: string
  style_source :: "'src option"
  source_layer :: string
  filter' :: 'flt
  layout :: 'lay
  min_zoom :: 'n
  max_zoom :: 'n

record ('n, 'src, 'flt, 'lay, 'ty) StyleLayer =
  id' :: string
  type' :: 'ty
  bucket :: "('n, 'src, 'flt, 'lay) StyleBucket option"

definition replaceConstant :: "('n, 'src) StyleParser \<Rightarrow> 'n json \<Rightarrow> 'n json" where
  "replaceConstant parser value =
     (case value of
        JString s \<Rightarrow> (case constants parser s of Some c \<Rightarrow> c | None \<Rightarrow> value)
      | _ \<Rightarrow> value)"

text \<open>
  \<^verbatim>\<open>parseLayout\<close> returns at once unless the value is an object; otherwise it runs its
  \<^verbatim>\<open>parseRenderProperty\<close> calls, which write \<^verbatim>\<open>bucket.visibility\<close> and the members of
  \<^verbatim>\<open>bucket.render\<close> and nothing else: the argument \<open>properties\<close>.
\<close>

definition parseLayout ::
  "('n json \<Rightarrow> 'ty \<Rightarrow> 'lay \<Rightarrow> 'lay) \<Rightarrow> 'n json \<Rightarrow> 'ty \<Rightarrow>
   ('n, 'src, 'flt, 'lay) StyleBucket \<Rightarrow> ('n, 'src, 'flt, 'lay) StyleBucket" where
  "parseLayout properties value ty b =
     (if \<not> IsObject value then b else b\<lparr>layout := properties value ty (layout b)\<rparr>)"

text \<open>
  The six \<^verbatim>\<open>if (value.HasMember(...))\<close> blocks of \<^verbatim>\<open>parseBucket\<close>, in the source's order,
  each as a function on the bucket. The warnings they log are left out.
  \<^verbatim>\<open>parseFilterExpression\<close> is defined outside the sources and is an argument.
\<close>

definition bucket_source ::
  "('n, 'src) StyleParser \<Rightarrow> 'n json \<Rightarrow> ('n, 'src, 'flt, 'lay) StyleBucket \<Rightarrow>
   ('n, 'src, 'flt, 'lay) StyleBucket" where
  "bucket_source parser value b =
     (if HasMember value ''source'' then
        (let value_source = replaceConstant parser (member value ''source'') in
         case value_source of
           JString source_name \<Rightarrow>
             (case sources parser source_name of
                Some src \<Rightarrow> b\<lparr>style_source := Some src\<rparr>
              | None \<Rightarrow> b)
         | _ \<Rightarrow> b)
      else b)"

definition bucket_source_layer ::
  "('n, 'src) StyleParser \<Rightarrow> 'n json \<Rightarrow> ('n, 'src, 'flt, 'lay) StyleBucket \<Rightarrow>
   ('n, 'src, 'flt, 'lay) StyleBucket" where
  "bucket_source_layer parser value b =
     (if HasMember value ''source-layer'' then
        (let value_source_layer = replaceConstant parser (member value ''source-layer'') in
         case value_source_layer of
           JString s \<Rightarrow> b\<lparr>source_layer := s\<rparr>
         | _ \<Rightarrow> b)
      else b)"

definition bucket_filter ::
  "('n json \<Rightarrow> 'flt) \<Rightarrow> ('n, 'src) StyleParser \<Rightarrow> 'n json \<Rightarrow>
   ('n, 'src, 'flt, 'lay) StyleBucket \<Rightarrow> ('n, 'src, 'flt, 'lay) StyleBucket" where
  "bucket_filter parseFilterExpression parser value b =
     (if HasMember value ''filter'' then
        (let value_filter = replaceConstant parser (member value ''filter'') in
         b\<lparr>filter' := parseFilterExpression value_filter\<rparr>)
      else b)"

definition bucket_layout ::
  "('n json \<Rightarrow> 'ty \<Rightarrow> 'lay \<Rightarrow> 'lay) \<Rightarrow> ('n, 'src) StyleParser \<Rightarrow> 'n json \<Rightarrow> 'ty \<Rightarrow>
   ('n, 'src, 'flt, 'lay) StyleBucket \<Rightarrow> ('n, 'src, 'flt, 'lay) StyleBucket" where
  "bucket_layout properties parser value ty b =
     (if HasMember value ''layout'' then
        (let value_render = replaceConstant parser (member value ''layout'') in
         parseLayout properties value_render ty b)
      else b)"

definition bucket_minzoom ::
  "'n json \<Rightarrow> ('n, 'src, 'flt, 'lay) StyleBucket \<Rightarrow> ('n, 'src, 'flt, 'lay) StyleBucket" where
  "bucket_minzoom value b =
     (if HasMember value ''minzoom'' then
        (case member value ''minzoom'' of
           JNumber d \<Rightarrow> b\<lparr>min_zoom := d\<rparr>
         | _ \<Rightarrow> b)
      else b)"

definition bucket_maxzoom ::
  "'n json \<Rightarrow> ('n, 'src, 'flt, 'lay) StyleBucket \<Rightarrow> ('n, 'src, 'flt, 'lay) StyleBucket" where
  "bucket_maxzoom value b =
     (if HasMember value ''maxzoom'' then
        (case member value ''maxzoom'' of
           JNumber d \<Rightarrow> b\<lparr>min_zoom := d\<rparr>
         | _ \<Rightarrow> b)
      else b)"

text \<open>
  \<^verbatim>\<open>StyleParser::parseBucket\<close>. \<open>make_bucket\<close> is the constructor \<^verbatim>\<open>StyleBucket(type)\<close>: what
  it leaves in the fields is declared in a header that is not among the sources.
\<close>

definition parseBucket ::
  "('ty \<Rightarrow> ('n, 'src, 'flt, 'lay) StyleBucket) \<Rightarrow> ('n json \<Rightarrow> 'flt) \<Rightarrow>
   ('n json \<Rightarrow> 'ty \<Rightarrow> 'lay \<Rightarrow> 'lay) \<Rightarrow> ('n, 'src) StyleParser \<Rightarrow> 'n json \<Rightarrow>
   ('n, 'src, 'flt, 'lay, 'ty) StyleLayer \<Rightarrow> ('n, 'src, 'flt, 'lay, 'ty) StyleLayer" where
  "parseBucket make_bucket parseFilterExpression properties parser value layer =
     (let b0 = (make_bucket (type' layer))\<lparr>name := id' layer\<rparr>;
          b1 = bucket_source parser value b0;
          b2 = bucket_source_layer parser value b1;
          b3 = bucket_filter parseFilterExpression parser value b2;
          b4 = bucket_layout properties parser value (type' layer) b3;
          b5 = bucket_minzoom value b4;
          b6 = bucket_maxzoom value b5
      in layer\<lparr>bucket := Some b6\<rparr>)"

section \<open>The decoder: the varint loop\<close>

text \<open>
  The recursion equation of the loop is applied by hand below, one pass at a time.
\<close>

declare varint_loop.simps [simp del]

lemma varint_loop_step:
  "cont byte \<Longrightarrow> bitpos < 70 \<Longrightarrow> data p < end' p \<Longrightarrow>
   varint_loop p byte result bitpos =
     varint_loop (p\<lparr>data := data p + 1, reads := data p # reads p\<rparr>) (mem p (data p))
       (result OR push_bit bitpos (ucast (mem p (data p)) AND 0x7F)) (bitpos + 7)"
  by (subst varint_loop.simps) (simp add: cont_def Let_def)

lemma varint_loop_exit:
  "\<not> (bitpos < 70 \<and> cont byte) \<Longrightarrow> varint_loop p byte result bitpos = (Inr (byte, result, bitpos), p)"
  by (subst varint_loop.simps) (auto simp add: cont_def)

lemma varint_loop_end:
  "cont byte \<Longrightarrow> bitpos < 70 \<Longrightarrow> end' p \<le> data p \<Longrightarrow>
   varint_loop p byte result bitpos = (Inl unterminated_varint_exception, p)"
  by (subst varint_loop.simps) (simp add: cont_def)

lemma upt_first: "[a ..< a + Suc k] = a # [a + 1 ..< a + 1 + k]"
  by (simp add: upt_conv_Cons)

lemma cont_0x80: "cont 0x80"
  by (simp add: cont_def)

text \<open>
  The three ways the loop ends: on a byte without the continuation bit, at \<^verbatim>\<open>end\<close>, or
  after ten bytes.
\<close>

lemma varint_loop_terminated:
  "cont byte \<Longrightarrow> bitpos + 7 * k < 70 \<Longrightarrow> data p + k < end' p \<Longrightarrow>
   (\<forall>i<k. cont (mem p (data p + i))) \<Longrightarrow> \<not> cont (mem p (data p + k)) \<Longrightarrow>
   varint_loop p byte result bitpos =
     (Inr (mem p (data p + k),
           result OR varint_value (map (mem p) [data p ..< data p + Suc k]) bitpos,
           bitpos + 7 * Suc k),
      p\<lparr>data := data p + Suc k, reads := rev [data p ..< data p + Suc k] @ reads p\<rparr>)"
proof (induction k arbitrary: p byte result bitpos)
  case 0
  then show ?case
    by (simp add: varint_loop_step varint_loop_exit)
next
  case (Suc k)
  let ?p = "p\<lparr>data := data p + 1, reads := data p # reads p\<rparr>"
  let ?r = "result OR push_bit bitpos (ucast (mem p (data p)) AND 0x7F)"
  have c0: "cont (mem p (data p))" using Suc.prems(4) by force
  have a: "\<forall>i<k. cont (mem ?p (data ?p + i))" using Suc.prems(4) by force
  have b: "\<not> cont (mem ?p (data ?p + k))" using Suc.prems(5) by simp
  have step: "varint_loop p byte result bitpos = varint_loop ?p (mem p (data p)) ?r (bitpos + 7)"
    using Suc.prems(1,2,3) by (intro varint_loop_step) auto
  have ih: "varint_loop ?p (mem p (data p)) ?r (bitpos + 7) = 
     (Inr (mem ?p (data ?p + k),
           ?r OR varint_value (map (mem ?p) [data ?p ..< data ?p + Suc k]) (bitpos + 7),
           bitpos + 7 + 7 * Suc k),
      ?p\<lparr>data := data ?p + Suc k, reads := rev [data ?p ..< data ?p + Suc k] @ reads ?p\<rparr>)"
    using Suc.prems(2,3) by (intro Suc.IH [OF c0 _ _ a b]) auto
  have l: "[data p ..< data p + Suc (Suc k)] = data p # [data p + 1 ..< data p + 1 + Suc k]"
    by (rule upt_first)
  show ?case
    unfolding step ih l
    by (simp add: or.assoc del: upt_Suc)
qed

lemma varint_loop_unterminated:
  "cont byte \<Longrightarrow> bitpos + 7 * k < 70 \<Longrightarrow> end' p \<le> data p + k \<Longrightarrow>
   (\<forall>i<k. data p + i < end' p \<and> cont (mem p (data p + i))) \<Longrightarrow>
   fst (varint_loop p byte result bitpos) = Inl unterminated_varint_exception \<and>
   data (snd (varint_loop p byte result bitpos)) = data p + k"
proof (induction k arbitrary: p byte result bitpos)
  case 0
  then show ?case by (simp add: varint_loop_end)
next
  case (Suc k)
  let ?p = "p\<lparr>data := data p + 1, reads := data p # reads p\<rparr>"
  let ?r = "result OR push_bit bitpos (ucast (mem p (data p)) AND 0x7F)"
  have c0: "cont (mem p (data p))" and d0: "data p < end' p" using Suc.prems(4) by force+
  have a: "\<forall>i<k. data ?p + i < end' ?p \<and> cont (mem ?p (data ?p + i))" using Suc.prems(4) by force
  have step: "varint_loop p byte result bitpos = varint_loop ?p (mem p (data p)) ?r (bitpos + 7)"
    using Suc.prems(1,2) d0 by (intro varint_loop_step) auto
  have ih: "fst (varint_loop ?p (mem p (data p)) ?r (bitpos + 7)) = Inl unterminated_varint_exception \<and>
   data (snd (varint_loop ?p (mem p (data p)) ?r (bitpos + 7))) = data ?p + k"
    using Suc.prems(2,3) by (intro Suc.IH [OF c0 _ _ a]) auto
  show ?case unfolding step using ih by simp
qed

lemma varint_loop_too_long:
  "cont byte \<Longrightarrow> bitpos + 7 * k = 70 \<Longrightarrow>
   (\<forall>i<k. data p + i < end' p \<and> cont (mem p (data p + i))) \<Longrightarrow>
   (\<exists>b r. cont b \<and> fst (varint_loop p byte result bitpos) = Inr (b, r, 70)) \<and>
   data (snd (varint_loop p byte result bitpos)) = data p + k"
proof (induction k arbitrary: p byte result bitpos)
  case 0
  then show ?case by (simp add: varint_loop_exit)
next
  case (Suc k)
  let ?p = "p\<lparr>data := data p + 1, reads := data p # reads p\<rparr>"
  let ?r = "result OR push_bit bitpos (ucast (mem p (data p)) AND 0x7F)"
  have c0: "cont (mem p (data p))" and d0: "data p < end' p" using Suc.prems(3) by force+
  have a: "\<forall>i<k. data ?p + i < end' ?p \<and> cont (mem ?p (data ?p + i))" using Suc.prems(3) by force
  have step: "varint_loop p byte result bitpos = varint_loop ?p (mem p (data p)) ?r (bitpos + 7)"
    using Suc.prems(1,2) d0 by (intro varint_loop_step) auto
  have ih: "(\<exists>b r. cont b \<and> fst (varint_loop ?p (mem p (data p)) ?r (bitpos + 7)) = Inr (b, r, 70)) \<and>
   data (snd (varint_loop ?p (mem p (data p)) ?r (bitpos + 7))) = data ?p + k"
    using Suc.prems(2) by (intro Suc.IH [OF c0 _ a]) auto
  show ?case unfolding step using ih by simp
qed

lemma pbf_varint_too_long:
  fixes p :: pbf
  assumes "\<forall>i<10. data p + i < end' p \<and> cont (mem p (data p + i))"
  shows "fst (pbf_varint p :: (pbf_exception + 'a::len word) \<times> pbf) = Inl varint_too_long_exception"
proof -
  have "(0::nat) + 7 * 10 = 70" by simp
  from varint_loop_too_long [OF cont_0x80 this assms, of "0 :: 'a word"]
  obtain b r where b: "cont b" and l: "fst (varint_loop p 0x80 (0 :: 'a word) 0) = Inr (b, r, 70)"
    by blast
  show ?thesis
    using b l unfolding pbf_varint_def
    by (cases "varint_loop p 0x80 (0 :: 'a word) 0") (simp add: cont_def)
qed

lemma pbf_varint_unterminated:
  fixes p :: pbf
  assumes k: "k < 10" and e: "end' p \<le> data p + k"
    and c: "\<forall>i<k. data p + i < end' p \<and> cont (mem p (data p + i))"
  shows "fst (pbf_varint p :: (pbf_exception + 'a::len word) \<times> pbf) = Inl unterminated_varint_exception"
proof -
  have "0 + 7 * k < 70" using k by simp
  from varint_loop_unterminated [OF cont_0x80 this e c, of "0 :: 'a word"]
  have "fst (varint_loop p 0x80 (0 :: 'a word) 0) = Inl unterminated_varint_exception"
    by blast
  then show ?thesis
    unfolding pbf_varint_def
    by (cases "varint_loop p 0x80 (0 :: 'a word) 0") simp
qed

lemma pbf_varint_terminated:
  fixes p :: pbf
  assumes k: "k < 10" and e: "data p + k < end' p"
    and c: "\<forall>i<k. cont (mem p (data p + i))" and nc: "\<not> cont (mem p (data p + k))"
  shows "pbf_varint p =
          (Inr (varint_value (map (mem p) [data p ..< data p + Suc k]) 0 :: 'a::len word),
           p\<lparr>data := data p + Suc k, reads := rev [data p ..< data p + Suc k] @ reads p\<rparr>)"
proof -
  have "0 + 7 * k < 70" using k by simp
  from varint_loop_terminated [OF cont_0x80 this e c nc, of "0 :: 'a word"]
  show ?thesis
    using nc unfolding pbf_varint_def by (simp add: cont_def del: upt_Suc)
qed

lemma varint_trichotomy:
  fixes p :: pbf
  obtains
    (too_long) "\<forall>i<10. data p + i < end' p \<and> cont (mem p (data p + i))"
  | (unterminated) k where "k < 10" "end' p - data p = k"
      "\<forall>i<k. data p + i < end' p \<and> cont (mem p (data p + i))"
  | (terminated) k where "k < 10" "data p + k < end' p"
      "\<forall>i<k. cont (mem p (data p + i))" "\<not> cont (mem p (data p + k))"
proof -
  let ?P = "\<lambda>i. data p + i < end' p \<and> cont (mem p (data p + i))"
  show thesis
  proof (cases "\<forall>i<10. ?P i")
    case True
    then show thesis by (rule too_long)
  next
    case False
    define k where "k = (LEAST i. \<not> ?P i)"
    from False obtain i0 where i0: "i0 < 10" "\<not> ?P i0" by blast
    have nk: "\<not> ?P k" unfolding k_def using i0(2) by (rule LeastI)
    have "k \<le> i0" unfolding k_def using i0(2) by (rule Least_le)
    then have k10: "k < 10" using i0(1) by simp
    have below: "\<forall>i<k. ?P i"
    proof (intro allI impI)
      fix i assume "i < k"
      then have "\<not> \<not> ?P i" unfolding k_def by (rule not_less_Least)
      then show "?P i" by blast
    qed
    show thesis
    proof (cases "data p + k < end' p")
      case True
      then have nc: "\<not> cont (mem p (data p + k))" using nk by simp
      have bc: "\<forall>i<k. cont (mem p (data p + i))" using below by simp
      show thesis by (rule terminated [OF k10 True bc nc])
    next
      case F2: False
      have r: "end' p - data p = k"
      proof (cases k)
        case 0
        then show ?thesis using F2 by simp
      next
        case (Suc j)
        then have "data p + j < end' p" using below by simp
        then show ?thesis using F2 Suc by simp
      qed
      show thesis by (rule unterminated [OF k10 r below])
    qed
  qed
qed

lemma varint_errors:
  fixes p :: pbf
  shows "(fst (pbf_varint p :: (pbf_exception + 'a::len word) \<times> pbf) = Inl varint_too_long_exception)
           = (\<forall>i<10. data p + i < end' p \<and> cont (mem p (data p + i)))
       \<and> (fst (pbf_varint p :: (pbf_exception + 'a word) \<times> pbf) = Inl unterminated_varint_exception)
           = (end' p - data p < 10 \<and> (\<forall>i<end' p - data p. cont (mem p (data p + i))))"
proof (cases p rule: varint_trichotomy)
  case too_long
  have "data p + 9 < end' p" using too_long by simp
  then have "\<not> end' p - data p < 10" by simp
  then show ?thesis
    using too_long by (simp only: pbf_varint_too_long [OF too_long]) simp
next
  case (unterminated k)
  have e: "end' p \<le> data p + k" using unterminated(2) by simp
  have n: "\<not> (\<forall>i<10. data p + i < end' p \<and> cont (mem p (data p + i)))"
    using unterminated(1) e by (intro notI) (auto dest!: spec [of _ k])
  have y: "\<forall>i<end' p - data p. cont (mem p (data p + i))"
    using unterminated(3) by (simp add: unterminated(2))
  show ?thesis
    using n y unterminated(1,2)
    by (simp only: pbf_varint_unterminated [OF unterminated(1) e unterminated(3)]) simp
next
  case (terminated k)
  have n: "\<not> (\<forall>i<10. data p + i < end' p \<and> cont (mem p (data p + i)))"
    using terminated(1,4) by (intro notI) (auto dest!: spec [of _ k])
  have "k < end' p - data p" using terminated(2) by simp
  then have y: "\<not> (\<forall>i<end' p - data p. cont (mem p (data p + i)))"
    using terminated(4) by (intro notI) (auto dest!: spec [of _ k])
  show ?thesis
    using n y by (simp only: pbf_varint_terminated [OF terminated]) simp
qed


lemma varint_at_end:
  "end' q \<le> data q \<Longrightarrow> pbf_varint q = (Inl unterminated_varint_exception :: pbf_exception + 'a::len word, q)"
  by (simp add: pbf_varint_def varint_loop_end cont_0x80)

subsection \<open>Bytes and bits\<close>

lemma mask_0x7F: "(0x7F :: 'a::len word) = mask 7"
  by (simp add: mask_eq_exp_minus_1)

lemma bit_lt_exp: "(m::nat) < 2 ^ k \<Longrightarrow> bit m i \<Longrightarrow> i < k"
proof -
  assume a: "m < 2 ^ k" and b: "bit m i"
  have "take_bit k m = m" using a by (simp add: take_bit_nat_eq_self_iff)
  then have "bit (take_bit k m) i" using b by simp
  then show ?thesis by (simp add: bit_take_bit_iff)
qed

lemma bit_lt128: "v < 128 \<Longrightarrow> bit (v::nat) i \<Longrightarrow> i < 7"
proof -
  assume a: "v < 128" and b: "bit v i"
  have "take_bit 7 v = v" using a by (simp add: take_bit_nat_eq_self_iff)
  then have "bit (take_bit 7 v) i" using b by simp
  then show ?thesis by (simp add: bit_take_bit_iff)
qed

lemma bit_mod128: "bit (v mod 128 :: nat) i \<Longrightarrow> i < 7"
  by (rule bit_lt128 [of "v mod 128"]) simp_all

lemma bit_0x80: "bit (0x80 :: 'a::len word) n \<longleftrightarrow> n = 7 \<and> 7 < LENGTH('a)"
proof -
  have "(0x80 :: 'a word) = 2 ^ 7" by simp
  then show ?thesis by (auto simp only: bit_exp_iff possible_bit_word)
qed

lemma bit_128_nat: "bit (128 :: nat) n \<longleftrightarrow> n = 7"
proof -
  have "(128 :: nat) = 2 ^ 7" by simp
  then show ?thesis by (auto simp only: bit_exp_iff possible_bit_def)
qed

lemma bit_128_int: "bit (128 :: int) n \<longleftrightarrow> n = 7"
proof -
  have "(128 :: int) = 2 ^ 7" by simp
  then show ?thesis by (auto simp only: bit_exp_iff possible_bit_def)
qed

lemma low7_of_small: "v < 128 \<Longrightarrow> (ucast (of_nat v :: u8) AND 0x7F) = (of_nat v :: 'a::len word)"
  unfolding mask_0x7F
  by (rule bit_word_eqI) (auto simp: bit_simps dest: bit_lt128)

lemma low7_of_flagged: "(ucast ((of_nat (v mod 128) :: u8) OR 0x80) AND 0x7F) = (of_nat (v mod 128) :: 'a::len word)"
  unfolding mask_0x7F
  by (intro bit_word_eqI) (auto simp: bit_simps bit_0x80 bit_128_nat bit_128_int dest: bit_mod128)

lemma join_low7: "(of_nat (v mod 128) :: 'a::len word) OR push_bit 7 (of_nat (v div 128)) = of_nat v"
proof -
  have "v mod 128 = take_bit 7 v" "v div 128 = drop_bit 7 v"
    by (simp_all add: take_bit_eq_mod drop_bit_eq_div)
  then show ?thesis
    by (intro bit_word_eqI) (auto simp: bit_simps)
qed

lemma small_not_cont: "v < 128 \<Longrightarrow> \<not> cont (of_nat v)"
  unfolding cont_def
  apply (simp only: not_not)
  by (rule bit_word_eqI) (auto simp: bit_simps bit_0x80 bit_128_nat bit_128_int dest: bit_lt128)

lemma flagged_cont: "cont (of_nat (v mod 128) OR 0x80)"
proof -
  have "bit ((of_nat (v mod 128) OR 0x80) AND (0x80::u8)) 7"
    by (simp add: bit_simps bit_0x80)
  then show ?thesis unfolding cont_def by auto
qed

lemma drop_bit1_of_nat:
  assumes "x < 2 ^ LENGTH('a::len)"
  shows "drop_bit 1 (of_nat x :: 'a word) = of_nat (x div 2)"
proof -
  have d: "x div 2 = drop_bit 1 x" by (simp add: drop_bit_eq_div)
  show ?thesis
    unfolding d
    by (rule bit_word_eqI) (auto simp: bit_simps dest: bit_lt_exp [OF assms])
qed

lemma and1_of_nat: "(of_nat x :: 'a::len word) AND 1 = of_nat (x mod 2)"
proof -
  have d: "x mod 2 = take_bit 1 x" by (simp add: take_bit_eq_mod)
  show ?thesis
    unfolding d
    by (rule bit_word_eqI) (auto simp: bit_simps bit_0)
qed

subsection \<open>The encodings\<close>

lemma encode_varint_nonempty: "encode_varint v \<noteq> []"
  by (cases "v < 128") simp_all

lemma encode_varint_cont:
  "list_all cont (butlast (encode_varint v)) \<and> \<not> cont (last (encode_varint v))"
proof (induction v rule: encode_varint.induct)
  case (1 v)
  then show ?case by (simp add: small_not_cont)
next
  case (2 v)
  then show ?case by (simp add: flagged_cont encode_varint_nonempty)
qed

lemma encode_varint_length: "0 < n \<Longrightarrow> v < 2 ^ (7 * n) \<Longrightarrow> length (encode_varint v) \<le> n"
proof (induction n arbitrary: v)
  case 0
  then show ?case by simp
next
  case (Suc n)
  show ?case
  proof (cases "v < 128")
    case True
    then show ?thesis by simp
  next
    case False
    have "n \<noteq> 0" using False Suc.prems(2) by (cases n) auto
    moreover have "v div 128 < 2 ^ (7 * n)"
      using Suc.prems(2) by (simp add: less_mult_imp_div_less power_add)
    ultimately have "length (encode_varint (v div 128)) \<le> n" using Suc.IH by simp
    with False show ?thesis by simp
  qed
qed

lemma encode_varint_shift:
  "0 < w \<Longrightarrow> v < 2 ^ w \<Longrightarrow> 7 * (length (encode_varint v) - 1) < w"
proof (induction v arbitrary: w rule: encode_varint.induct)
  case (1 v)
  then show ?case by simp
next
  case (2 v)
  have "(2::nat) ^ 7 \<le> v" using 2(1) by simp
  also have "v < 2 ^ w" by (rule 2(4))
  finally have w7: "7 < w" by (simp only: power_strict_increasing_iff)
  then have w: "w = (w - 7) + 7" by simp
  have "v < 2 ^ (w - 7) * 2 ^ 7" using 2(4) by (subst (asm) w) (simp only: power_add)
  then have "v div 128 < 2 ^ (w - 7)" by (simp add: less_mult_imp_div_less)
  then have "7 * (length (encode_varint (v div 128)) - 1) < w - 7"
    using w7 by (intro 2(2)) simp_all
  moreover have "0 < length (encode_varint (v div 128))"
    using encode_varint_nonempty [of "v div 128"] by simp
  ultimately show ?case using 2(1) w7 by simp
qed

lemma varint_value_encode:
  "varint_value (encode_varint v) bitpos = push_bit bitpos (of_nat v :: 'a::len word)"
proof (induction v arbitrary: bitpos rule: encode_varint.induct)
  case (1 v)
  then show ?case by (simp add: low7_of_small)
next
  case (2 v)
  have "varint_value (encode_varint v) bitpos =
          push_bit bitpos (of_nat (v mod 128) :: 'a word) OR push_bit (bitpos + 7) (of_nat (v div 128))"
    using 2 by (simp add: low7_of_flagged)
  also have "\<dots> = push_bit bitpos ((of_nat (v mod 128) :: 'a word) OR push_bit 7 (of_nat (v div 128)))"
    by (simp add: push_bit_or push_bit_push_bit add.commute)
  finally show ?case by (simp only: join_low7)
qed

lemma varint_encoded:
  fixes p :: pbf
  assumes h: "holds p (encode_varint v)" and v: "v < 2 ^ 70"
  shows "pbf_varint p =
           (Inr (of_nat v :: 'a::len word),
            p\<lparr>data := data p + length (encode_varint v),
              reads := rev [data p ..< data p + length (encode_varint v)] @ reads p\<rparr>)"
proof -
  let ?bs = "encode_varint v"
  define k where "k = length ?bs - 1"
  have len: "length ?bs = Suc k"
    using encode_varint_nonempty [of v] by (cases ?bs) (simp_all add: k_def)
  have k10: "k < 10"
    using encode_varint_length [of 10 v] v len by simp
  have m: "map (mem p) [data p ..< data p + Suc k] = ?bs" and e: "data p + k < end' p"
    using h by (simp_all add: holds_def len)
  have nth: "mem p (data p + i) = ?bs ! i" if "i < Suc k" for i
  proof -
    have "?bs ! i = map (mem p) [data p ..< data p + Suc k] ! i" by (simp only: m)
    also have "\<dots> = mem p (data p + i)" using that by (simp del: upt_Suc add: nth_map_upt)
    finally show ?thesis by simp
  qed
  have c: "\<forall>i<k. cont (mem p (data p + i))"
  proof (intro allI impI)
    fix i assume i: "i < k"
    have "list_all cont (butlast ?bs)" using encode_varint_cont by blast
    then have "cont (butlast ?bs ! i)" using i len by (simp add: list_all_length)
    then show "cont (mem p (data p + i))" using i len by (simp add: nth nth_butlast)
  qed
  have l: "\<not> cont (mem p (data p + k))"
    using encode_varint_cont [of v] encode_varint_nonempty [of v] len
    by (simp add: nth last_conv_nth)
  have c80: "cont 0x80" by (simp add: cont_def)
  have "varint_loop p 0x80 (0 :: 'a word) 0 =
     (Inr (mem p (data p + k), 0 OR varint_value (map (mem p) [data p ..< data p + Suc k]) 0, 0 + 7 * Suc k),
      p\<lparr>data := data p + Suc k, reads := rev [data p ..< data p + Suc k] @ reads p\<rparr>)"
    using k10 by (intro varint_loop_terminated [OF c80 _ e c l]) simp
  then show ?thesis
    using l unfolding pbf_varint_def m len
    by (simp add: varint_value_encode cont_def)
qed

lemma zigzag_bound:
  assumes lo: "- (2 ^ n) \<le> v" and hi: "v < 2 ^ n"
  shows "zigzag v < 2 ^ Suc n"
proof -
  have "int (zigzag v) < 2 * 2 ^ n" using lo hi by (auto simp: zigzag_def)
  then have "int (zigzag v) < int (2 ^ Suc n)" by simp
  then show ?thesis by (simp only: of_nat_less_iff)
qed

lemma unzigzag:
  assumes lo: "- (2 ^ (LENGTH('a::len) - 1)) \<le> v" and hi: "v < 2 ^ (LENGTH('a) - 1)"
  shows "drop_bit 1 (of_nat (zigzag v) :: 'a word) XOR - (of_nat (zigzag v) AND 1) = word_of_int v"
proof -
  have "zigzag v < 2 ^ Suc (LENGTH('a) - 1)" by (rule zigzag_bound [OF lo hi])
  then have b: "zigzag v < 2 ^ LENGTH('a)" by simp
  show ?thesis
  proof (cases "0 \<le> v")
    case True
    have "zigzag v div 2 = nat v" "zigzag v mod 2 = 0"
      using True by (simp_all add: zigzag_def nat_mult_distrib)
    then show ?thesis
      using True by (simp only: drop_bit1_of_nat [OF b] and1_of_nat) simp
  next
    case False
    define m where "m = nat (- v - 1)"
    have z: "zigzag v = 2 * m + 1" using False by (simp add: zigzag_def m_def)
    have dm: "zigzag v div 2 = m" "zigzag v mod 2 = 1" unfolding z by simp_all
    have "(of_nat m :: 'a word) XOR - 1 = NOT (of_nat m)" by simp
    also have "\<dots> = - of_nat m - 1" by (simp add: not_eq_complement)
    also have "\<dots> = word_of_int (- int m - 1)" by simp
    also have "- int m - 1 = v" using False by (simp add: m_def)
    finally show ?thesis
      by (simp only: drop_bit1_of_nat [OF b] and1_of_nat dm) simp
  qed
qed

lemma pow64_70: "LENGTH('a::len) \<le> 64 \<Longrightarrow> n < 2 ^ LENGTH('a) \<Longrightarrow> (n::nat) < 2 ^ 70"
proof -
  assume a: "LENGTH('a) \<le> 64" and b: "n < 2 ^ LENGTH('a)"
  have "(2::nat) ^ LENGTH('a) \<le> 2 ^ 64" using a by (intro power_increasing) simp_all
  also have "\<dots> < 2 ^ 70" by simp
  finally show ?thesis using b by simp
qed

lemma svarint_encoded:
  fixes p :: pbf
  assumes h: "holds p (encode_varint (zigzag v))"
    and lo: "- (2 ^ (LENGTH('a::len) - 1)) \<le> v" and hi: "v < 2 ^ (LENGTH('a) - 1)"
    and w: "LENGTH('a) \<le> 64"
  shows "pbf_svarint p =
           (Inr (word_of_int v :: 'a word),
            p\<lparr>data := data p + length (encode_varint (zigzag v)),
              reads := rev [data p ..< data p + length (encode_varint (zigzag v))] @ reads p\<rparr>)"
proof -
  have "zigzag v < 2 ^ Suc (LENGTH('a) - 1)" by (rule zigzag_bound [OF lo hi])
  then have "zigzag v < 2 ^ LENGTH('a)" by simp
  then have "zigzag v < 2 ^ 70" by (rule pow64_70 [OF w])
  from varint_encoded [OF h this, where ?'a = 'a] show ?thesis
    unfolding pbf_svarint_def by (simp only: prod.case sum.case unzigzag [OF lo hi])
qed

lemma encode_2_32: "encode_varint 4294967296 = [0x80, 0x80, 0x80, 0x80, 0x10]"
  by simp

lemma encode_zigzag_m3: "encode_varint (zigzag (- 3)) = [0x05]"
  by (simp add: zigzag_def)

subsection \<open>What the operations leave unchanged\<close>



lemma skipBytes_eq:
  "pbf_skipBytes b p =
     (if end' p < data p + unat b then Inl end_of_buffer_exception else Inr (), p\<lparr>data := data p + unat b\<rparr>)"
  by (simp add: pbf_skipBytes_def Let_def)




















lemma skipBytes_failure:
  "fst (pbf_skipBytes b p) = Inl e \<Longrightarrow>
     e = end_of_buffer_exception \<and> snd (pbf_skipBytes b p) = p\<lparr>data := data p + unat b\<rparr> \<and>
     end' (snd (pbf_skipBytes b p)) < data (snd (pbf_skipBytes b p))"
  by (auto simp add: skipBytes_eq split: if_splits)

lemma next_at_end: "end' q \<le> data q \<Longrightarrow> pbf_next q = (Inr False, q)"
  by (simp add: pbf_next_def)

lemma next_times_at_end: "end' q \<le> data q \<Longrightarrow> pbf_next_times n q = (replicate n (Inr False), q)"
  by (induction n) (simp_all add: next_at_end)

lemma past_end_stays:
  assumes "end' q < data q"
  shows "end' (snd (pbf_varint q :: (pbf_exception + 'a::len word) \<times> pbf))
           < data (snd (pbf_varint q :: (pbf_exception + 'a word) \<times> pbf))"
    and "end' (snd (pbf_svarint q :: (pbf_exception + 'a word) \<times> pbf))
           < data (snd (pbf_svarint q :: (pbf_exception + 'a word) \<times> pbf))"
    and "end' (snd (pbf_next q)) < data (snd (pbf_next q))"
    and "end' (snd (pbf_string q)) < data (snd (pbf_string q))"
    and "end' (snd (pbf_float32 q)) < data (snd (pbf_float32 q))"
    and "end' (snd (pbf_float64 q)) < data (snd (pbf_float64 q))"
    and "end' (snd (pbf_boolean q)) < data (snd (pbf_boolean q))"
    and "end' (snd (pbf_skipBytes b q)) < data (snd (pbf_skipBytes b q))"
    and "end' (snd (pbf_skipValue val q)) < data (snd (pbf_skipValue val q))"
    and "end' (snd (pbf_skip q)) < data (snd (pbf_skip q))"
proof -
  have le: "end' q \<le> data q" using assms by simp
  have sb: "end' (snd (pbf_skipBytes c q)) < data (snd (pbf_skipBytes c q))" for c
    using assms by (simp add: skipBytes_eq)
  have fs: "fst (pbf_skipBytes c q) = Inl end_of_buffer_exception" for c
    using assms by (simp add: skipBytes_eq)
  show "end' (snd (pbf_varint q :: (pbf_exception + 'a word) \<times> pbf))
           < data (snd (pbf_varint q :: (pbf_exception + 'a word) \<times> pbf))"
    using assms by (simp add: varint_at_end [OF le])
  show "end' (snd (pbf_svarint q :: (pbf_exception + 'a word) \<times> pbf))
           < data (snd (pbf_svarint q :: (pbf_exception + 'a word) \<times> pbf))"
    using assms by (simp add: pbf_svarint_def varint_at_end [OF le])
  show "end' (snd (pbf_next q)) < data (snd (pbf_next q))"
    using assms by (simp add: next_at_end [OF le])
  show "end' (snd (pbf_string q)) < data (snd (pbf_string q))"
    using assms by (simp add: pbf_string_def varint_at_end [OF le])
  show "end' (snd (pbf_float32 q)) < data (snd (pbf_float32 q))"
    using sb [of 4] fs [of 4] by (cases "pbf_skipBytes 4 q") (simp add: pbf_float32_def)
  show "end' (snd (pbf_float64 q)) < data (snd (pbf_float64 q))"
    using sb [of 8] fs [of 8] by (cases "pbf_skipBytes 8 q") (simp add: pbf_float64_def)
  show "end' (snd (pbf_boolean q)) < data (snd (pbf_boolean q))"
    using sb [of 1] fs [of 1] by (cases "pbf_skipBytes 1 q") (simp add: pbf_boolean_def)
  show "end' (snd (pbf_skipBytes b q)) < data (snd (pbf_skipBytes b q))" by (rule sb)
  show sv: "end' (snd (pbf_skipValue v q)) < data (snd (pbf_skipValue v q))" for v
    using assms sb [of 8] sb [of 4]
    by (simp add: pbf_skipValue_def Let_def varint_at_end [OF le])
  show "end' (snd (pbf_skip q)) < data (snd (pbf_skip q))"
    unfolding pbf_skip_def by (rule sv)
qed

section \<open>The tile lifecycle: lemmas\<close>

lemma step_obsolete: "state t = obsolete \<Longrightarrow> state (tile_step t ev) = obsolete"
  by (cases ev) (simp_all add: tile_request_def tile_completion_def tile_parse_def tile_cancel_def)

lemma run_obsolete: "state t = obsolete \<Longrightarrow> state (tile_run t evs) = obsolete"
  unfolding tile_run_def by (induction evs arbitrary: t) (simp_all add: step_obsolete)

lemma step_rank: "rank (state t) \<le> rank (state (tile_step t ev))"
  by (cases ev; cases "state t")
     (simp_all add: tile_request_def tile_completion_def tile_parse_def tile_cancel_def)

lemma run_rank: "rank (state t) \<le> rank (state (tile_run t evs))"
  unfolding tile_run_def
proof (induction evs arbitrary: t)
  case Nil
  show ?case by simp
next
  case (Cons ev evs)
  have "rank (state t) \<le> rank (state (tile_step t ev))" by (rule step_rank)
  also have "\<dots> \<le> rank (state (foldl tile_step (tile_step t ev) evs))" by (rule Cons.IH)
  finally show ?case by simp
qed

lemma step_parsed:
  "state (tile_step t ev) = parsed \<Longrightarrow> state t \<noteq> parsed \<Longrightarrow> state t = loaded \<and> ev = Parse True"
  by (cases ev)
     (auto simp add: tile_request_def tile_completion_def tile_parse_def tile_cancel_def
        split: if_splits)

lemma run_snoc: "tile_run t (evs @ [ev]) = tile_step (tile_run t evs) ev"
  by (simp add: tile_run_def)

lemma run_parsed:
  "state (tile_run t evs) = parsed \<Longrightarrow> state t \<noteq> parsed \<Longrightarrow>
     \<exists>i<length evs. state (tile_run t (take i evs)) = loaded \<and> evs ! i = Parse True"
proof (induction evs rule: rev_induct)
  case Nil
  then show ?case by (simp add: tile_run_def)
next
  case (snoc ev evs)
  show ?case
  proof (cases "state (tile_run t evs) = parsed")
    case True
    then obtain i where "i < length evs" "state (tile_run t (take i evs)) = loaded" "evs ! i = Parse True"
      using snoc.IH snoc.prems(2) by blast
    then show ?thesis by (intro exI [of _ i]) (simp add: nth_append)
  next
    case False
    have "state (tile_step (tile_run t evs) ev) = parsed" using snoc.prems(1) by (simp add: run_snoc)
    then have "state (tile_run t evs) = loaded \<and> ev = Parse True" using False by (rule step_parsed)
    then show ?thesis by (intro exI [of _ "length evs"]) simp
  qed
qed

section \<open>The caching file source: lemmas\<close>

lemma request_base [simp]: "base (fs_request resolve ty url w s) = base s"
  by (simp add: fs_request_def Let_def split: option.split)

lemma requests_base [simp]: "base (fs_requests resolve rs s) = base s"
  by (induction rs arbitrary: s) auto

lemma request_delivered [simp]: "delivered (fs_request resolve ty url w s) = delivered s"
  by (simp add: fs_request_def Let_def split: option.split)

lemma requests_delivered [simp]: "delivered (fs_requests resolve rs s) = delivered s"
  by (induction rs arbitrary: s) auto

lemma requests_pending:
  "pending (fs_requests resolve rs s) key =
     (case pending s key of
        Some ws \<Rightarrow> Some (ws @ waiters_for resolve (base s) key rs)
      | None \<Rightarrow> (if waiters_for resolve (base s) key rs = [] then None
                 else Some (waiters_for resolve (base s) key rs)))"
proof (induction rs arbitrary: s)
  case Nil
  show ?case by (simp add: waiters_for_def split: option.split)
next
  case (Cons r rs)
  obtain ty url w where r: "r = (ty, url, w)" by (cases r)
  show ?case
    unfolding r fs_requests.simps Cons.IH
    by (auto simp add: fs_request_def Let_def waiters_for_def split: option.split)
qed

lemma requests_operations:
  "count_list (operations (fs_requests resolve rs s)) key =
     count_list (operations s) key +
     (if pending s key = None \<and> waiters_for resolve (base s) key rs \<noteq> [] then 1 else 0)"
proof (induction rs arbitrary: s)
  case Nil
  show ?case by (simp add: waiters_for_def)
next
  case (Cons r rs)
  obtain ty url w where r: "r = (ty, url, w)" by (cases r)
  show ?case
    unfolding r fs_requests.simps Cons.IH
    by (auto simp add: fs_request_def Let_def waiters_for_def split: option.split)
qed

section \<open>The style parser: lemmas\<close>

lemma blocks_keep_zoom:
  "min_zoom (bucket_source parser value b) = min_zoom b"
  "max_zoom (bucket_source parser value b) = max_zoom b"
  "min_zoom (bucket_source_layer parser value b) = min_zoom b"
  "max_zoom (bucket_source_layer parser value b) = max_zoom b"
  "min_zoom (bucket_filter pfe parser value b) = min_zoom b"
  "max_zoom (bucket_filter pfe parser value b) = max_zoom b"
  "min_zoom (bucket_layout props parser value ty b) = min_zoom b"
  "max_zoom (bucket_layout props parser value ty b) = max_zoom b"
  "max_zoom (bucket_minzoom value b) = max_zoom b"
  "max_zoom (bucket_maxzoom value b) = max_zoom b"
  by (simp_all add: bucket_source_def bucket_source_layer_def bucket_filter_def bucket_layout_def
      bucket_minzoom_def bucket_maxzoom_def parseLayout_def Let_def split: json.split option.split)

lemma minzoom_block:
  "FindMember value ''minzoom'' = Some (JNumber m) \<Longrightarrow> min_zoom (bucket_minzoom value b) = m"
  by (simp add: bucket_minzoom_def HasMember_def member_def)

lemma maxzoom_block:
  "FindMember value ''maxzoom'' = Some (JNumber z) \<Longrightarrow> min_zoom (bucket_maxzoom value b) = z"
  "\<forall>z. FindMember value ''maxzoom'' \<noteq> Some (JNumber z) \<Longrightarrow>
     min_zoom (bucket_maxzoom value b) = min_zoom b"
  by (auto simp add: bucket_maxzoom_def HasMember_def member_def split: json.split option.split)

section \<open>The decoder: declared lengths\<close>




section \<open>The properties, claim by claim\<close>

subsection \<open>C1: bounds safety\<close>




subsection \<open>C2: the round trip\<close>

text \<open>
  C2, as the spec states it, is about \<^verbatim>\<open>pbf::varint\<close>, whose accumulator is \<^verbatim>\<open>uint32_t\<close>
  unless the caller names another type. With that default the claim fails at
  \<open>v = 2^32 < 2^35\<close>: the encoding is \<^verbatim>\<open>80 80 80 80 10\<close>, the fifth byte is shifted by
  28 bits and its payload falls out of the 32 bits: \<^verbatim>\<open>varint\<close> returns 0.
\<close>

theorem varint_default_width_counterexample:
  "(4294967296 :: nat) < 2 ^ 35 \<and>
   encode_varint 4294967296 = [0x80, 0x80, 0x80, 0x80, 0x10] \<and>
   fst (pbf_varint (pbf_init [0x80, 0x80, 0x80, 0x80, 0x10] 0 0 0) :: (pbf_exception + u32) \<times> pbf) = Inr 0"
  by (simp add: encode_2_32 pbf_varint_def pbf_init_def varint_loop.simps)

text \<open>
  C2, amended. Let \<open>T\<close> be an unsigned integer type of \<open>w \<le> 64\<close> bits. For every
  \<open>n < 2^w\<close>, \<^verbatim>\<open>varint<T>\<close> at the base-128 encoding of \<open>n\<close> returns \<open>n\<close> and leaves the
  cursor behind the encoding; so every \<open>n < 2^35\<close> comes back when \<open>T\<close> is \<^verbatim>\<open>uint64_t\<close>,
  and every \<open>n < 2^32\<close> with the default \<^verbatim>\<open>uint32_t\<close>. For every signed \<open>v\<close> with
  \<open>-2^(w-1) \<le> v < 2^(w-1)\<close>, \<^verbatim>\<open>svarint<T>\<close> at the encoding of the zig-zag code of \<open>v\<close>
  returns \<open>v\<close>, as the \<open>w\<close>-bit two's complement value that \<open>sint\<close> reads.
  Under these bounds the last byte of the encoding is shifted by less than \<open>w\<close> bits,
  so every shift of the loop is one that C++ defines.
\<close>

theorem varint_zigzag_roundtrip:
  fixes p :: pbf
  shows
  "(holds p (encode_varint n) \<and> n < 2 ^ LENGTH('a::len) \<and> LENGTH('a) \<le> 64 \<longrightarrow>
      pbf_varint p =
        (Inr (of_nat n :: 'a word),
         p\<lparr>data := data p + length (encode_varint n),
           reads := rev [data p ..< data p + length (encode_varint n)] @ reads p\<rparr>) \<and>
      unat (of_nat n :: 'a word) = n \<and>
      7 * (length (encode_varint n) - 1) < LENGTH('a)) \<and>
   (holds p (encode_varint (zigzag v)) \<and> - (2 ^ (LENGTH('a) - 1)) \<le> v \<and> v < 2 ^ (LENGTH('a) - 1) \<and>
      LENGTH('a) \<le> 64 \<longrightarrow>
      pbf_svarint p =
        (Inr (word_of_int v :: 'a word),
         p\<lparr>data := data p + length (encode_varint (zigzag v)),
           reads := rev [data p ..< data p + length (encode_varint (zigzag v))] @ reads p\<rparr>) \<and>
      sint (word_of_int v :: 'a word) = v \<and>
      7 * (length (encode_varint (zigzag v)) - 1) < LENGTH('a))"
proof (intro conjI impI; (elim conjE)?)
  assume h: "holds p (encode_varint n)" and n: "n < 2 ^ LENGTH('a)" and w: "LENGTH('a) \<le> 64"
  show "pbf_varint p =
        (Inr (of_nat n :: 'a word),
         p\<lparr>data := data p + length (encode_varint n),
           reads := rev [data p ..< data p + length (encode_varint n)] @ reads p\<rparr>)"
    by (rule varint_encoded [OF h pow64_70 [OF w n]])
  show "unat (of_nat n :: 'a word) = n"
    using n by (simp add: unat_of_nat)
  show "7 * (length (encode_varint n) - 1) < LENGTH('a)"
    using n by (intro encode_varint_shift) simp_all
next
  assume h: "holds p (encode_varint (zigzag v))" and lo: "- (2 ^ (LENGTH('a) - 1)) \<le> v"
    and hi: "v < 2 ^ (LENGTH('a) - 1)" and w: "LENGTH('a) \<le> 64"
  show "pbf_svarint p =
        (Inr (word_of_int v :: 'a word),
         p\<lparr>data := data p + length (encode_varint (zigzag v)),
           reads := rev [data p ..< data p + length (encode_varint (zigzag v))] @ reads p\<rparr>)"
    by (rule svarint_encoded [OF h lo hi w])
  show "sint (word_of_int v :: 'a word) = v"
    using lo hi by (simp add: sint_sbintrunc' signed_take_bit_int_eq_self)
  have "zigzag v < 2 ^ Suc (LENGTH('a) - 1)" by (rule zigzag_bound [OF lo hi])
  then show "7 * (length (encode_varint (zigzag v)) - 1) < LENGTH('a)"
    by (intro encode_varint_shift) simp_all
qed

text \<open>
  The value \<open>2^32\<close> with \<open>T\<close> = \<^verbatim>\<open>uint64_t\<close>, and \<open>-3\<close> (zig-zag code 5) with \<open>T\<close> =
  \<^verbatim>\<open>uint32_t\<close>.
\<close>

theorem varint_zigzag_roundtrip_witness:
  "holds (pbf_init [0x80, 0x80, 0x80, 0x80, 0x10] 0 0 0) (encode_varint 4294967296) \<and>
   fst (pbf_varint (pbf_init [0x80, 0x80, 0x80, 0x80, 0x10] 0 0 0)) = Inr (4294967296 :: u64) \<and>
   holds (pbf_init [0x05] 0 0 0) (encode_varint (zigzag (- 3))) \<and>
   fst (pbf_svarint (pbf_init [0x05] 0 0 0)) = Inr (- 3 :: u32)"
proof -
  have h1: "holds (pbf_init [0x80, 0x80, 0x80, 0x80, 0x10] 0 0 0) (encode_varint 4294967296)"
    unfolding encode_2_32 by (simp add: holds_def pbf_init_def upt_rec)
  have h2: "holds (pbf_init [0x05] 0 0 0) (encode_varint (zigzag (- 3)))"
    unfolding encode_zigzag_m3 by (simp add: holds_def pbf_init_def)
  show ?thesis
    using h1 h2
      varint_zigzag_roundtrip [where ?'a = 64 and p = "pbf_init [0x80, 0x80, 0x80, 0x80, 0x10] 0 0 0"
        and n = 4294967296 and v = 0]
      varint_zigzag_roundtrip [where ?'a = 32 and p = "pbf_init [0x05] 0 0 0" and v = "- 3" and n = 0]
    by simp
qed

subsection \<open>C3: the errors of varint\<close>

text \<open>
  C3, as the spec states it, has \<^verbatim>\<open>varint<T>\<close> throw \<^verbatim>\<open>varint_too_long_exception\<close> when
  no terminating byte is found within 5 bytes for a 32-bit \<open>T\<close>. The loop runs while
  \<^verbatim>\<open>bitpos < 70\<close> for every \<open>T\<close>: a sixth byte that ends the varint is accepted. (That
  byte is shifted by 35 bits; whatever a 32-bit shift by 35 yields, no exception comes
  of it, and the statement below does not say what is returned.)
\<close>

theorem varint32_six_bytes_counterexample:
  "fst (pbf_varint (pbf_init [0x80, 0x80, 0x80, 0x80, 0x80, 0x01] 0 0 0)
         :: (pbf_exception + u32) \<times> pbf) \<noteq> Inl varint_too_long_exception"
  by (simp add: pbf_varint_def pbf_init_def varint_loop.simps)

text \<open>
  C3, amended. For every accumulator type \<open>T\<close> and every decoder state, \<^verbatim>\<open>varint<T>\<close>
  throws \<^verbatim>\<open>varint_too_long_exception\<close> exactly when the ten bytes at the cursor all lie
  before \<^verbatim>\<open>end\<close> and all have the continuation bit set (ten bytes, whatever the width
  of \<open>T\<close>), and throws \<^verbatim>\<open>unterminated_varint_exception\<close> exactly when fewer than ten
  bytes remain before \<^verbatim>\<open>end\<close> and every one of them has the continuation bit set.
\<close>

theorem varint_exceptions:
  fixes p :: pbf
  shows "(fst (pbf_varint p :: (pbf_exception + 'a::len word) \<times> pbf) = Inl varint_too_long_exception)
           = (\<forall>i<10. data p + i < end' p \<and> cont (mem p (data p + i)))
       \<and> (fst (pbf_varint p :: (pbf_exception + 'a word) \<times> pbf) = Inl unterminated_varint_exception)
           = (remaining p < 10 \<and> (\<forall>i<remaining p. cont (mem p (data p + i))))"
  unfolding remaining_def by (rule varint_errors)

text \<open>Ten bytes \<^verbatim>\<open>0x80\<close>, and nine of them, with \<open>T\<close> = \<^verbatim>\<open>uint32_t\<close>.\<close>

theorem varint_exceptions_witness:
  "fst (pbf_varint (pbf_init [0x80, 0x80, 0x80, 0x80, 0x80, 0x80, 0x80, 0x80, 0x80, 0x80] 1 0 0)
         :: (pbf_exception + u32) \<times> pbf) = Inl varint_too_long_exception \<and>
   fst (pbf_varint (pbf_init [0x80, 0x80, 0x80, 0x80, 0x80, 0x80, 0x80, 0x80, 0x80] 1 0 0)
         :: (pbf_exception + u32) \<times> pbf) = Inl unterminated_varint_exception"
  using
    varint_exceptions [where ?'a = 32
      and p = "pbf_init [0x80, 0x80, 0x80, 0x80, 0x80, 0x80, 0x80, 0x80, 0x80, 0x80] 1 0 0"]
    varint_exceptions [where ?'a = 32
      and p = "pbf_init [0x80, 0x80, 0x80, 0x80, 0x80, 0x80, 0x80, 0x80, 0x80] 1 0 0"]
  by (simp add: pbf_varint_def pbf_init_def varint_loop.simps)

subsection \<open>C4: the lifecycle is monotonic\<close>

text \<open>
  C4. For every tile and every sequence of \<^verbatim>\<open>request()\<close>, \<^verbatim>\<open>parse()\<close>, \<^verbatim>\<open>cancel()\<close> and
  completion callbacks: an obsolete tile stays obsolete; a step that makes a tile parsed
  is a successful \<^verbatim>\<open>parse()\<close> of a loaded tile, and a run that makes it parsed has passed
  through loaded right before a successful \<^verbatim>\<open>parse()\<close>; \<^verbatim>\<open>cancel()\<close> moves every state but
  obsolete to obsolete; and the state never moves back in the order invalid, initial,
  loading, loaded, parsed, obsolete.
\<close>

theorem tile_lifecycle_monotone:
  "(state t = obsolete \<longrightarrow> state (tile_run t evs) = obsolete) \<and>
   (state (tile_step t ev) = parsed \<and> state t \<noteq> parsed \<longrightarrow> state t = loaded \<and> ev = Parse True) \<and>
   (state (tile_run t evs) = parsed \<and> state t \<noteq> parsed \<longrightarrow>
      (\<exists>i<length evs. state (tile_run t (take i evs)) = loaded \<and> evs ! i = Parse True)) \<and>
   (state t \<noteq> obsolete \<longrightarrow> state (tile_step t Cancel) = obsolete) \<and>
   rank (state t) \<le> rank (state (tile_run t evs))"
  using run_obsolete [of t evs] step_parsed [of t ev] run_parsed [of t evs] run_rank [of t evs]
  by (simp add: tile_cancel_def)

text \<open>
  A tile that is requested, loaded and parsed; and the spec's scenario: a loading tile
  that is cancelled before its completion arrives ends obsolete, its buffer empty.
\<close>

theorem tile_lifecycle_monotone_witness:
  "state (tile_run \<lparr>state = initial, tile_data = [], req = False\<rparr>
      [Request, Completion True ''tile'', Parse True]) = parsed \<and>
   state (tile_run \<lparr>state = initial, tile_data = [], req = False\<rparr> [Request, Completion True ''tile'']) = loaded \<and>
   state (tile_run \<lparr>state = initial, tile_data = [], req = False\<rparr>
      [Request, Cancel, Completion True ''tile'', Parse True]) = obsolete \<and>
   tile_data (tile_run \<lparr>state = initial, tile_data = [], req = False\<rparr>
      [Request, Cancel, Completion True ''tile'', Parse True]) = []"
  using tile_lifecycle_monotone [of "\<lparr>state = initial, tile_data = [], req = False\<rparr>"
      "[Request, Completion True ''tile'', Parse True]" "Parse True"]
  by (simp add: tile_run_def tile_request_def tile_completion_def tile_parse_def tile_cancel_def)

subsection \<open>C5: coalescing\<close>

text \<open>
  C5. When no request for a key is in flight and a sequence of calls of \<^verbatim>\<open>request\<close> holds
  at least one for that key (among calls for any other keys), exactly one operation is
  started for the key, every caller that asked for it is attached to that operation, and
  the completion delivers the same outcome (the same bytes, or the failure) to each of
  them, in the order they asked, and clears the entry.
\<close>

theorem request_coalescing:
  "pending s key = None \<and> waiters_for resolve (base s) key rs \<noteq> [] \<longrightarrow>
     count_list (operations (fs_requests resolve rs s)) key = count_list (operations s) key + 1 \<and>
     pending (fs_requests resolve rs s) key = Some (waiters_for resolve (base s) key rs) \<and>
     delivered (fs_complete key r (fs_requests resolve rs s))
       = delivered s @ map (\<lambda>w. (w, r)) (waiters_for resolve (base s) key rs) \<and>
     pending (fs_complete key r (fs_requests resolve rs s)) key = None"
  by (simp add: requests_operations requests_pending fs_complete_def)

text \<open>Callers 1 and 3 ask for the same tile, caller 2 for a style in between.\<close>

theorem request_coalescing_witness:
  "count_list (operations (fs_requests (\<lambda>b u. b @ u)
      [(Tile, ''a'', 1), (Style, ''s'', 2), (Tile, ''a'', 3)]
      \<lparr>base = [], pending = Map.empty, operations = [], delivered = []\<rparr>)) (Tile, ''a'') = 1 \<and>
   delivered (fs_complete (Tile, ''a'') (Success ''x'') (fs_requests (\<lambda>b u. b @ u)
      [(Tile, ''a'', 1), (Style, ''s'', 2), (Tile, ''a'', 3)]
      \<lparr>base = [], pending = Map.empty, operations = [], delivered = []\<rparr>))
     = [(1, Success ''x''), (3, Success ''x'')]"
  using request_coalescing [of "\<lparr>base = [], pending = Map.empty, operations = [], delivered = []\<rparr>"
      "(Tile, ''a'')" "\<lambda>b u. b @ u" "[(Tile, ''a'', 1), (Style, ''s'', 2), (Tile, ''a'', 3)]"
      "Success ''x''"]
  by (simp add: waiters_for_def)

subsection \<open>C6 and C7: the concrete scenarios\<close>

text \<open>
  C6. \<^verbatim>\<open>varint<uint32_t>()\<close> at the start of the 1-byte buffer \<^verbatim>\<open>[0x80]\<close> (continuation bit
  set, no following byte) throws \<^verbatim>\<open>unterminated_varint_exception\<close>, whatever lies behind
  the buffer and whatever \<^verbatim>\<open>value\<close> and \<^verbatim>\<open>tag\<close> hold.
\<close>

theorem varint_0x80_unterminated:
  "fst (pbf_varint (pbf_init [0x80] past v t) :: (pbf_exception + u32) \<times> pbf)
     = Inl unterminated_varint_exception"
  by (simp add: pbf_varint_def pbf_init_def varint_loop.simps)

text \<open>
  C7. \<^verbatim>\<open>string()\<close> at the start of the 6-byte buffer \<^verbatim>\<open>[0x05, 'h', 'e', 'l', 'l', 'o']\<close>
  returns \<^verbatim>\<open>"hello"\<close> and leaves the cursor behind the 5 payload bytes, at \<^verbatim>\<open>end\<close>; it has
  read the 6 bytes of the buffer and no other.
\<close>

theorem string_hello:
  "fst (pbf_string (pbf_init [0x05, 0x68, 0x65, 0x6C, 0x6C, 0x6F] past v t)) = Inr ''hello'' \<and>
   data (snd (pbf_string (pbf_init [0x05, 0x68, 0x65, 0x6C, 0x6C, 0x6F] past v t))) = 6 \<and>
   end' (snd (pbf_string (pbf_init [0x05, 0x68, 0x65, 0x6C, 0x6C, 0x6F] past v t))) = 6 \<and>
   reads (snd (pbf_string (pbf_init [0x05, 0x68, 0x65, 0x6C, 0x6C, 0x6F] past v t))) = [5, 4, 3, 2, 1, 0]"
  by (simp add: pbf_string_def pbf_varint_def pbf_init_def varint_loop.simps pbf_skipBytes_def
      fetch_def Let_def upt_rec char_of_def bit_0)

subsection \<open>C8: skipValue\<close>



subsection \<open>C9: the cursor after a failed skipBytes\<close>

text \<open>
  C9. When \<^verbatim>\<open>skipBytes(b)\<close> throws, the exception is \<^verbatim>\<open>end_of_buffer_exception\<close>, the cursor
  has been advanced by \<open>b\<close> and nothing else has changed, and the cursor is strictly past
  \<^verbatim>\<open>end\<close>; any number of calls of \<^verbatim>\<open>next()\<close> from there all return false and leave the
  decoder as it is. More generally, with the cursor strictly past \<^verbatim>\<open>end\<close>, \<^verbatim>\<open>next()\<close>
  returns false and every operation of the decoder leaves the cursor strictly past
  \<^verbatim>\<open>end\<close>, so \<^verbatim>\<open>next()\<close> returns false after any calls in between as well.
\<close>

theorem skipBytes_failure_past_end:
  "(fst (pbf_skipBytes b p) = Inl e \<longrightarrow>
      e = end_of_buffer_exception \<and>
      snd (pbf_skipBytes b p) = p\<lparr>data := data p + unat b\<rparr> \<and>
      end' (snd (pbf_skipBytes b p)) < data (snd (pbf_skipBytes b p)) \<and>
      pbf_next_times n (snd (pbf_skipBytes b p)) = (replicate n (Inr False), snd (pbf_skipBytes b p))) \<and>
   (end' q < data q \<longrightarrow>
      pbf_next q = (Inr False, q) \<and>
      end' (snd (pbf_varint q :: (pbf_exception + u32) \<times> pbf))
        < data (snd (pbf_varint q :: (pbf_exception + u32) \<times> pbf)) \<and>
      end' (snd (pbf_varint q :: (pbf_exception + u64) \<times> pbf))
        < data (snd (pbf_varint q :: (pbf_exception + u64) \<times> pbf)) \<and>
      end' (snd (pbf_svarint q :: (pbf_exception + u32) \<times> pbf))
        < data (snd (pbf_svarint q :: (pbf_exception + u32) \<times> pbf)) \<and>
      end' (snd (pbf_svarint q :: (pbf_exception + u64) \<times> pbf))
        < data (snd (pbf_svarint q :: (pbf_exception + u64) \<times> pbf)) \<and>
      end' (snd (pbf_string q)) < data (snd (pbf_string q)) \<and>
      end' (snd (pbf_float32 q)) < data (snd (pbf_float32 q)) \<and>
      end' (snd (pbf_float64 q)) < data (snd (pbf_float64 q)) \<and>
      end' (snd (pbf_boolean q)) < data (snd (pbf_boolean q)) \<and>
      end' (snd (pbf_skipBytes c q)) < data (snd (pbf_skipBytes c q)) \<and>
      end' (snd (pbf_skipValue val q)) < data (snd (pbf_skipValue val q)) \<and>
      end' (snd (pbf_skip q)) < data (snd (pbf_skip q)))"
proof (intro conjI impI)
  assume f: "fst (pbf_skipBytes b p) = Inl e"
  note s = skipBytes_failure [OF f]
  show "e = end_of_buffer_exception" using s by blast
  show "snd (pbf_skipBytes b p) = p\<lparr>data := data p + unat b\<rparr>" using s by blast
  show lt: "end' (snd (pbf_skipBytes b p)) < data (snd (pbf_skipBytes b p))" using s by blast
  show "pbf_next_times n (snd (pbf_skipBytes b p)) = (replicate n (Inr False), snd (pbf_skipBytes b p))"
    using lt by (intro next_times_at_end) simp
next
  assume q: "end' q < data q"
  show "pbf_next q = (Inr False, q)" using q by (intro next_at_end) simp
qed (erule past_end_stays)+

text \<open>\<^verbatim>\<open>skipBytes(4)\<close> on a 2-byte buffer, then three calls of \<^verbatim>\<open>next()\<close>.\<close>

theorem skipBytes_failure_past_end_witness:
  "fst (pbf_skipBytes 4 (pbf_init [0x01, 0x02] 0 0 0)) = Inl end_of_buffer_exception \<and>
   data (snd (pbf_skipBytes 4 (pbf_init [0x01, 0x02] 0 0 0))) = 4 \<and>
   end' (snd (pbf_skipBytes 4 (pbf_init [0x01, 0x02] 0 0 0))) = 2 \<and>
   pbf_next_times 3 (snd (pbf_skipBytes 4 (pbf_init [0x01, 0x02] 0 0 0)))
     = ([Inr False, Inr False, Inr False], snd (pbf_skipBytes 4 (pbf_init [0x01, 0x02] 0 0 0)))"
proof -
  have f: "fst (pbf_skipBytes 4 (pbf_init [0x01, 0x02] 0 0 0)) = Inl end_of_buffer_exception"
    by (simp add: pbf_skipBytes_def pbf_init_def)
  have d: "data (snd (pbf_skipBytes 4 (pbf_init [0x01, 0x02] 0 0 0))) = 4"
     "end' (snd (pbf_skipBytes 4 (pbf_init [0x01, 0x02] 0 0 0))) = 2"
    by (simp_all add: pbf_skipBytes_def pbf_init_def)
  have r: "replicate 3 (Inr False) = [Inr False, Inr False, Inr False :: pbf_exception + bool]"
    by (simp add: numeral_3_eq_3)
  have t: "pbf_next_times 3 (snd (pbf_skipBytes 4 (pbf_init [0x01, 0x02] 0 0 0)))
     = (replicate 3 (Inr False), snd (pbf_skipBytes 4 (pbf_init [0x01, 0x02] 0 0 0)))"
    using skipBytes_failure_past_end [where b = 4 and p = "pbf_init [0x01, 0x02] 0 0 0"
        and e = end_of_buffer_exception and n = 3, THEN conjunct1] f
    by blast
  show ?thesis
    using f d t [unfolded r] by blast
qed

subsection \<open>C10: maxzoom is written to min_zoom\<close>

text \<open>
  C10. For every layer object with a numeric \<^verbatim>\<open>"maxzoom"\<close> member, \<^verbatim>\<open>parseBucket\<close> leaves that
  number in the bucket's \<^verbatim>\<open>min_zoom\<close>, whatever \<^verbatim>\<open>"minzoom"\<close> said; \<^verbatim>\<open>min_zoom\<close> is the field
  a numeric \<^verbatim>\<open>"minzoom"\<close> writes, as is seen when there is no numeric \<^verbatim>\<open>"maxzoom"\<close>; and
  for every input the bucket's \<^verbatim>\<open>max_zoom\<close> is what the constructor left there.
\<close>

theorem parseBucket_maxzoom_writes_min_zoom:
  "(FindMember value ''maxzoom'' = Some (JNumber z) \<longrightarrow>
      map_option min_zoom (bucket (parseBucket make_bucket pfe props parser value layer)) = Some z) \<and>
   (FindMember value ''minzoom'' = Some (JNumber m) \<and>
    (\<forall>z. FindMember value ''maxzoom'' \<noteq> Some (JNumber z)) \<longrightarrow>
      map_option min_zoom (bucket (parseBucket make_bucket pfe props parser value layer)) = Some m) \<and>
   map_option max_zoom (bucket (parseBucket make_bucket pfe props parser value layer))
     = Some (max_zoom (make_bucket (type' layer)))"
  by (simp add: parseBucket_def Let_def blocks_keep_zoom minzoom_block maxzoom_block)

text \<open>
  The layer \<^verbatim>\<open>{"minzoom": 3, "maxzoom": 14}\<close> with a bucket constructed with the zoom range
  -1000 to 1000: \<^verbatim>\<open>min_zoom\<close> ends as 14 and \<^verbatim>\<open>max_zoom\<close> as 1000. The layer
  \<^verbatim>\<open>{"minzoom": 3}\<close>: \<^verbatim>\<open>min_zoom\<close> ends as 3.
\<close>

theorem parseBucket_maxzoom_writes_min_zoom_witness:
  "map_option min_zoom (bucket (parseBucket
      (\<lambda>ty. \<lparr>name = [], style_source = None :: unit option, source_layer = [], filter' = (),
               layout = (), min_zoom = - 1000, max_zoom = 1000\<rparr>)
      (\<lambda>v. ()) (\<lambda>v ty l. l) \<lparr>constants = Map.empty, sources = Map.empty\<rparr>
      (JObject [(''minzoom'', JNumber 3), (''maxzoom'', JNumber (14 :: int))])
      \<lparr>id' = ''road'', type' = (), bucket = None\<rparr>)) = Some 14 \<and>
   map_option max_zoom (bucket (parseBucket
      (\<lambda>ty. \<lparr>name = [], style_source = None :: unit option, source_layer = [], filter' = (),
               layout = (), min_zoom = - 1000, max_zoom = 1000\<rparr>)
      (\<lambda>v. ()) (\<lambda>v ty l. l) \<lparr>constants = Map.empty, sources = Map.empty\<rparr>
      (JObject [(''minzoom'', JNumber 3), (''maxzoom'', JNumber (14 :: int))])
      \<lparr>id' = ''road'', type' = (), bucket = None\<rparr>)) = Some 1000 \<and>
   map_option min_zoom (bucket (parseBucket
      (\<lambda>ty. \<lparr>name = [], style_source = None :: unit option, source_layer = [], filter' = (),
               layout = (), min_zoom = - 1000, max_zoom = 1000\<rparr>)
      (\<lambda>v. ()) (\<lambda>v ty l. l) \<lparr>constants = Map.empty, sources = Map.empty\<rparr>
      (JObject [(''minzoom'', JNumber (3 :: int))])
      \<lparr>id' = ''road'', type' = (), bucket = None\<rparr>)) = Some 3"
  using
    parseBucket_maxzoom_writes_min_zoom [of
      "JObject [(''minzoom'', JNumber 3), (''maxzoom'', JNumber (14 :: int))]" 14
      "(\<lambda>ty. \<lparr>name = [], style_source = None :: unit option, source_layer = [], filter' = (),
               layout = (), min_zoom = - 1000, max_zoom = 1000\<rparr>)"
      "\<lambda>v. ()" "\<lambda>v ty l. l" "\<lparr>constants = Map.empty, sources = Map.empty\<rparr>"
      "\<lparr>id' = ''road'', type' = (), bucket = None\<rparr>"]
    parseBucket_maxzoom_writes_min_zoom [of
      "JObject [(''minzoom'', JNumber (3 :: int))]" 0
      "(\<lambda>ty. \<lparr>name = [], style_source = None :: unit option, source_layer = [], filter' = (),
               layout = (), min_zoom = - 1000, max_zoom = 1000\<rparr>)"
      "\<lambda>v. ()" "\<lambda>v ty l. l" "\<lparr>constants = Map.empty, sources = Map.empty\<rparr>"
      "\<lparr>id' = ''road'', type' = (), bucket = None\<rparr>" 3]
  by simp

end
